theory Spec2Isabelle
  imports Main "HOL-Library.Word"
begin

unbundle bit_operations_syntax

section \<open>Machine types and the exit protocol of executor/common.h\<close>

text \<open>
  The executor is built for 64-bit Linux: \<open>uintptr_t\<close> and \<open>uint64_t\<close> are 64-bit words,
  \<open>int\<close> is a 32-bit word read in two's complement.
\<close>

type_synonym uintptr = "64 word"
type_synonym cint = "32 word"

definition kFailStatus :: int where
  "kFailStatus = 67"

definition kErrorStatus :: int where
  "kErrorStatus = 68"

definition kRetryStatus :: int where
  "kRetryStatus = 69"

text \<open>
  A function of the source either returns to its caller or ends the process through
  \<open>exit(status)\<close>.
\<close>

datatype 'a res = Ret 'a | Exit int

text \<open>\<open>fail\<close>, \<open>error\<close> and \<open>exitf\<close> print a message and exit with their status.\<close>

definition fail :: "'a res" where
  "fail = Exit kFailStatus"

definition error :: "'a res" where
  "error = Exit kErrorStatus"

definition exitf :: "'a res" where
  "exitf = Exit kRetryStatus"

text \<open>Signal numbers of Linux (\<open>signal.h\<close>).\<close>

definition SIGBUS :: int where
  "SIGBUS = 7"

definition SIGKILL :: int where
  "SIGKILL = 9"

definition SIGSEGV :: int where
  "SIGSEGV = 11"

section \<open>Guarded memory access: \<open>segv_handler\<close> and \<open>NONFAILING\<close>\<close>

text \<open>
  The code of a thread after macro expansion is a list of instructions. \<open>Stmt l\<close> is a
  statement that completes; \<open>Fault sig\<close> is a memory access that raises the signal
  \<open>sig\<close>; \<open>FetchAdd\<close> and \<open>FetchSub\<close> are the two atomic updates of \<open>skip_segv\<close>;
  \<open>IfSetjmp b\<close> is \<open>if (_setjmp(segv_env) == 0) { b }\<close>.
\<close>

datatype instr =
    Stmt nat
  | Fault int
  | FetchAdd
  | FetchSub
  | IfSetjmp "instr list"

text \<open>
  The thread-local variables: the counter \<open>skip_segv\<close> and the single jump buffer
  \<open>segv_env\<close>, which holds the code that runs when \<open>_setjmp\<close> returns a second time
  (\<open>None\<close> before the first \<open>_setjmp\<close>). Two observation fields record the statements
  that completed and the number of \<open>_longjmp\<close> calls taken.
\<close>

record thread =
  skip_segv :: cint
  segv_env :: "instr list option"
  executed :: "nat list"
  jumps :: nat

definition thread0 :: thread where
  "thread0 = \<lparr>skip_segv = 0, segv_env = None, executed = [], jumps = 0\<rparr>"

datatype handled = Longjmp | ExitSig int

definition segv_handler :: "int \<Rightarrow> thread \<Rightarrow> handled" where
  "segv_handler sig t = (if skip_segv t \<noteq> 0 then Longjmp else ExitSig sig)"

definition NONFAILING :: "instr list \<Rightarrow> instr list" where
  "NONFAILING block = [FetchAdd, IfSetjmp block, FetchSub]"

text \<open>
  A configuration is a running thread with the code still to run, a process that called
  \<open>exit\<close>, a thread that ran to the end of its code, or a \<open>_longjmp\<close> through a jump
  buffer that was never filled.
\<close>

datatype config =
    Running thread "instr list"
  | Exited int
  | Finished thread
  | Undefined

fun step :: "thread \<Rightarrow> instr list \<Rightarrow> config" where
  "step t [] = Finished t"
| "step t (Stmt l # k) = Running (t\<lparr>executed := executed t @ [l]\<rparr>) k"
| "step t (FetchAdd # k) = Running (t\<lparr>skip_segv := skip_segv t + 1\<rparr>) k"
| "step t (FetchSub # k) = Running (t\<lparr>skip_segv := skip_segv t - 1\<rparr>) k"
| "step t (IfSetjmp b # k) = Running (t\<lparr>segv_env := Some k\<rparr>) (b @ k)"
| "step t (Fault sig # k) =
     (case segv_handler sig t of
        ExitSig s \<Rightarrow> Exited s
      | Longjmp \<Rightarrow>
          (case segv_env t of
             None \<Rightarrow> Undefined
           | Some k' \<Rightarrow> Running (t\<lparr>jumps := jumps t + 1\<rparr>) k'))"

text \<open>\<open>run n c\<close> is the configuration after \<open>n\<close> steps from \<open>c\<close>.\<close>

fun run :: "nat \<Rightarrow> config \<Rightarrow> config" where
  "run 0 c = c"
| "run (Suc n) (Running t k) = run n (step t k)"
| "run (Suc n) c = c"

section \<open>The operating system as seen by the executor\<close>

text \<open>
  A pointer argument that the source passes as a string literal or a local buffer is
  recorded by its contents (\<open>Str\<close>); one that is a caller-supplied machine word is
  recorded as that word (\<open>Addr\<close>).
\<close>

datatype carg = Str string | Addr uintptr

text \<open>The library and system calls the source makes, with the arguments it passes.\<close>

datatype call =
    Open string cint cint
  | Ioctl cint nat
  | Syscall cint "uintptr list"
  | Mount carg uintptr string uintptr string
  | Mknodat int uintptr nat uintptr
  | Fork
  | Prctl nat int
  | Setpgrp
  | Setsid
  | Setrlimit nat nat
  | Unshare nat
  | Setgroups nat
  | Setresgid int int int
  | Setresuid int int int
  | Opendir string
  | Readdir string
  | Closedir string
  | Lstat string
  | Unlink string
  | Umount2 string nat
  | Rmdir string
  | Mkdir string nat
  | Chdir string
  | Waitpid int nat
  | Usleep nat
  | Clock_gettime
  | Kill int int

text \<open>
  What a call gives back: its return value, \<open>errno\<close> after it, and what it wrote
  through its out-parameter where it has one (the pty number of \<open>TIOCGPTN\<close>, the
  \<open>d_name\<close> of \<open>readdir\<close>, \<open>S_ISDIR\<close> of the mode of \<open>lstat\<close>, the two fields of the
  \<open>timespec\<close>).
\<close>

record reply =
  rv :: int
  errno :: int
  out_int :: int
  d_name :: string
  is_dir :: bool
  tv_sec :: "64 word"
  tv_nsec :: "64 word"

text \<open>
  The environment answers a call from the calls made so far. The state threaded through
  the source is that history.
\<close>

type_synonym os = "call list \<Rightarrow> call \<Rightarrow> reply"

definition sys :: "os \<Rightarrow> call \<Rightarrow> call list \<Rightarrow> reply \<times> call list" where
  "sys os c tr = (os tr c, tr @ [c])"

text \<open>Constants of the Linux headers (x86-64).\<close>

definition O_RDWR :: cint where
  "O_RDWR = 2"

definition TIOCGPTN :: nat where
  "TIOCGPTN = 0x80045430"

definition AT_FDCWD :: int where
  "AT_FDCWD = - 100"

definition S_IFBLK :: nat where
  "S_IFBLK = 0x6000"

text \<open>\<open>makedev\<close> of glibc (\<open>sys/sysmacros.h\<close>).\<close>

definition makedev :: "uintptr \<Rightarrow> uintptr \<Rightarrow> uintptr" where
  "makedev major minor =
     push_bit 8 (major AND 0xfff) OR (minor AND 0xff)
       OR push_bit 32 (major AND NOT 0xfff) OR push_bit 12 (minor AND NOT 0xff)"

section \<open>\<open>printf\<close> conversions and C strings\<close>

definition digit_char :: "nat \<Rightarrow> char" where
  "digit_char d = char_of (of_char CHR ''0'' + d)"

text \<open>The digits of \<open>n\<close> in base \<open>b\<close>, most significant first (at least one digit).\<close>

function digits :: "nat \<Rightarrow> nat \<Rightarrow> string" where
  "digits b n = (if n < b \<or> b < 2 then [digit_char n] else digits b (n div b) @ [digit_char (n mod b)])"
  by pat_completeness auto
termination
  by (relation "measure (\<lambda>(b, n). n)") auto

declare digits.simps [simp del]

text \<open>\<open>%d\<close> and \<open>%ld\<close> of a signed value, \<open>%o\<close> of an unsigned one.\<close>

definition fmt_d :: "int \<Rightarrow> string" where
  "fmt_d i = (if i < 0 then CHR ''-'' # digits 10 (nat (- i)) else digits 10 (nat i))"

definition fmt_o :: "nat \<Rightarrow> string" where
  "fmt_o n = digits 8 n"

text \<open>The C string held by a sequence of bytes: the bytes before the first NUL.\<close>

definition c_str :: "string \<Rightarrow> string" where
  "c_str bytes = takeWhile (\<lambda>c. c \<noteq> CHR 0x00) bytes"

text \<open>
  A \<open>char\<close> buffer is modelled by the C string it holds. \<open>strncpy(buf, src, n)\<close> copies
  at most \<open>n\<close> bytes of the string; \<open>buf[i] = 0\<close> cuts the string at \<open>i\<close>;
  \<open>strchr\<close> gives the index of the first occurrence.
\<close>

definition strncpy :: "string \<Rightarrow> nat \<Rightarrow> string" where
  "strncpy src n = take n src"

definition set_nul :: "string \<Rightarrow> nat \<Rightarrow> string" where
  "set_nul buf i = take i buf"

fun strchr :: "string \<Rightarrow> char \<Rightarrow> nat option" where
  "strchr [] c = None"
| "strchr (x # xs) c = (if x = c then Some 0 else map_option Suc (strchr xs c))"

section \<open>The pseudo-calls and the dispatcher\<close>

text \<open>
  The loop of \<open>syz_open_dev\<close>: while the buffer holds a \<open>#\<close>, overwrite the first one
  with \<open>'0' + a1 % 10\<close> and divide \<open>a1\<close> by ten. Every round removes one \<open>#\<close>, which
  is why the loop ends.
\<close>

lemma strchr_Some: "strchr s c = Some i \<Longrightarrow> i < length s \<and> s ! i = c"
  by (induction s arbitrary: i) (auto split: if_splits)

lemma strchr_None: "strchr s c = None \<longleftrightarrow> c \<notin> set s"
  by (induction s) auto

lemma digit_char_neq_hash: "d < 10 \<Longrightarrow> digit_char d \<noteq> CHR ''#''"
proof
  assume d: "d < 10" and "digit_char d = CHR ''#''"
  then have "of_char (digit_char d) = (of_char CHR ''#'' :: nat)" by simp
  then show False using d by (simp add: digit_char_def)
qed

lemma count_update_less:
  "i < length s \<Longrightarrow> s ! i = c \<Longrightarrow> d \<noteq> c \<Longrightarrow> count_list (s[i := d]) c < count_list s c"
proof (induction s arbitrary: i)
  case Nil
  then show ?case by simp
next
  case (Cons x xs)
  then show ?case by (cases i) auto
qed

lemma unat_mod10_less: "unat ((a :: 64 word) mod 10) < 10"
  by (simp add: unat_mod)

function subst_hashes :: "string \<Rightarrow> uintptr \<Rightarrow> string \<times> uintptr" where
  "subst_hashes buf a1 =
     (case strchr buf CHR ''#'' of
        None \<Rightarrow> (buf, a1)
      | Some hash \<Rightarrow> subst_hashes (buf[hash := digit_char (unat (a1 mod 10))]) (a1 div 10))"
  by pat_completeness auto
termination
proof (relation "measure (\<lambda>(buf, a1). count_list buf CHR ''#'')")
  show "wf (measure (\<lambda>(buf, a1). count_list buf CHR ''#''))" by simp
next
  fix buf :: string and a1 :: uintptr and hash
  assume "strchr buf CHR ''#'' = Some hash"
  then have "hash < length buf" "buf ! hash = CHR ''#''" by (simp_all add: strchr_Some)
  then have "count_list (buf[hash := digit_char (unat (a1 mod 10))]) CHR ''#'' < count_list buf CHR ''#''"
    by (rule count_update_less) (rule digit_char_neq_hash [OF unat_mod10_less])
  then show "((buf[hash := digit_char (unat (a1 mod 10))], a1 div 10), (buf, a1))
      \<in> measure (\<lambda>(buf, a1). count_list buf CHR ''#'')" by simp
qed

declare subst_hashes.simps [simp del]

definition syz_open_dev ::
  "os \<Rightarrow> (uintptr \<Rightarrow> string) \<Rightarrow> uintptr \<Rightarrow> uintptr \<Rightarrow> uintptr \<Rightarrow> call list \<Rightarrow> uintptr \<times> call list" where
  "syz_open_dev os mem a0 a1 a2 tr =
     (if a0 = 0xc \<or> a0 = 0xb then
        (let buf = ''/dev/'' @ (if a0 = 0xc then ''char'' else ''block'') @ ''/''
                   @ fmt_d (uint (ucast a1 :: 8 word)) @ '':'' @ fmt_d (uint (ucast a2 :: 8 word));
             (r, tr') = sys os (Open buf O_RDWR 0) tr
         in (scast (word_of_int (rv r) :: cint), tr'))
      else
        (let buf = set_nul (strncpy (c_str (mem a0)) 1024) 1023;
             (buf', a1') = subst_hashes buf a1;
             (r, tr') = sys os (Open buf' (ucast a2) 0) tr
         in (scast (word_of_int (rv r) :: cint), tr')))"

definition syz_open_pts :: "os \<Rightarrow> uintptr \<Rightarrow> uintptr \<Rightarrow> call list \<Rightarrow> uintptr \<times> call list" where
  "syz_open_pts os a0 a1 tr =
     (let (r, tr1) = sys os (Ioctl (ucast a0) TIOCGPTN) tr
      in if (word_of_int (rv r) :: cint) \<noteq> 0 then (- 1, tr1)
         else
           (let buf = ''/dev/pts/'' @ fmt_d (sint (word_of_int (out_int r) :: cint));
                (r2, tr2) = sys os (Open buf (ucast a1) 0) tr1
            in (scast (word_of_int (rv r2) :: cint), tr2)))"

text \<open>
  The option string that both FUSE mounts start with:
  \<open>sprintf(buf, "fd=%d,user_id=%ld,group_id=%ld,rootmode=0%o", fd, (long)uid, (long)gid,
  (unsigned)mode & ~3u)\<close>.
\<close>

definition fuse_opts_head :: "cint \<Rightarrow> uintptr \<Rightarrow> uintptr \<Rightarrow> uintptr \<Rightarrow> string" where
  "fuse_opts_head fd uid gid mode =
     ''fd='' @ fmt_d (sint fd) @ '',user_id='' @ fmt_d (sint uid) @ '',group_id='' @ fmt_d (sint gid)
       @ '',rootmode=0'' @ fmt_o (unat ((ucast mode :: 32 word) AND NOT 3))"

definition syz_fuse_mount ::
  "os \<Rightarrow> uintptr \<Rightarrow> uintptr \<Rightarrow> uintptr \<Rightarrow> uintptr \<Rightarrow> uintptr \<Rightarrow> uintptr \<Rightarrow> call list
    \<Rightarrow> uintptr \<times> call list" where
  "syz_fuse_mount os a0 a1 a2 a3 a4 a5 tr =
     (let target = a0; mode = a1; uid = a2; gid = a3; maxread = a4; flags = a5;
          (r, tr1) = sys os (Open ''/dev/fuse'' O_RDWR 0) tr;
          fd = (word_of_int (rv r) :: cint)
      in if fd = - 1 then (scast fd, tr1)
         else
           (let buf = fuse_opts_head fd uid gid mode;
                buf = (if maxread \<noteq> 0 then buf @ '',max_read='' @ fmt_d (sint maxread) else buf);
                buf = (if mode AND 1 \<noteq> 0 then buf @ '',default_permissions'' else buf);
                buf = (if mode AND 2 \<noteq> 0 then buf @ '',allow_other'' else buf);
                (r2, tr2) = sys os (Mount (Str '''') target ''fuse'' flags buf) tr1
            in (scast fd, tr2)))"

definition syz_fuseblk_mount ::
  "os \<Rightarrow> uintptr \<Rightarrow> uintptr \<Rightarrow> uintptr \<Rightarrow> uintptr \<Rightarrow> uintptr \<Rightarrow> uintptr \<Rightarrow> uintptr \<Rightarrow> uintptr
    \<Rightarrow> call list \<Rightarrow> uintptr \<times> call list" where
  "syz_fuseblk_mount os a0 a1 a2 a3 a4 a5 a6 a7 tr =
     (let target = a0; blkdev = a1; mode = a2; uid = a3; gid = a4; maxread = a5; blksize = a6;
          flags = a7;
          (r, tr1) = sys os (Open ''/dev/fuse'' O_RDWR 0) tr;
          fd = (word_of_int (rv r) :: cint)
      in if fd = - 1 then (scast fd, tr1)
         else
           (let (r2, tr2) = sys os (Mknodat AT_FDCWD blkdev S_IFBLK (makedev 7 199)) tr1
            in if (word_of_int (rv r2) :: 64 word) \<noteq> 0 then (scast fd, tr2)
               else
                 (let buf = fuse_opts_head fd uid gid mode;
                      buf = (if maxread \<noteq> 0 then buf @ '',max_read='' @ fmt_d (sint maxread) else buf);
                      buf = (if blksize \<noteq> 0 then buf @ '',blksize='' @ fmt_d (sint blksize) else buf);
                      buf = (if mode AND 1 \<noteq> 0 then buf @ '',default_permissions'' else buf);
                      buf = (if mode AND 2 \<noteq> 0 then buf @ '',allow_other'' else buf);
                      (r3, tr3) = sys os (Mount (Addr blkdev) target ''fuseblk'' flags buf) tr2
                  in (scast fd, tr3))))"

text \<open>
  The numbers of the pseudo-calls come from the generated \<open>syscalls.h\<close>, which is not part
  of this file: they are parameters. A C \<open>switch\<close> needs them pairwise distinct.
\<close>

record sysnums =
  NR_syz_test :: cint
  NR_syz_open_dev :: cint
  NR_syz_open_pts :: cint
  NR_syz_fuse_mount :: cint
  NR_syz_fuseblk_mount :: cint

definition execute_syscall ::
  "os \<Rightarrow> (uintptr \<Rightarrow> string) \<Rightarrow> sysnums \<Rightarrow> cint \<Rightarrow> uintptr \<Rightarrow> uintptr \<Rightarrow> uintptr \<Rightarrow> uintptr
    \<Rightarrow> uintptr \<Rightarrow> uintptr \<Rightarrow> uintptr \<Rightarrow> uintptr \<Rightarrow> uintptr \<Rightarrow> call list \<Rightarrow> uintptr \<times> call list" where
  "execute_syscall os mem nums nr a0 a1 a2 a3 a4 a5 a6 a7 a8 tr =
     (if nr = NR_syz_test nums then (0, tr)
      else if nr = NR_syz_open_dev nums then syz_open_dev os mem a0 a1 a2 tr
      else if nr = NR_syz_open_pts nums then syz_open_pts os a0 a1 tr
      else if nr = NR_syz_fuse_mount nums then syz_fuse_mount os a0 a1 a2 a3 a4 a5 tr
      else if nr = NR_syz_fuseblk_mount nums then syz_fuseblk_mount os a0 a1 a2 a3 a4 a5 a6 a7 tr
      else (let (r, tr') = sys os (Syscall nr [a0, a1, a2, a3, a4, a5]) tr
            in (word_of_int (rv r), tr')))"

text \<open>Inputs for evaluating the pseudo-calls: an environment in which every call returns 3,
  and one assignment of distinct numbers to the pseudo-calls.\<close>

definition os_ok :: os where
  "os_ok tr c = \<lparr>rv = 3, errno = 0, out_int = 0, d_name = [], is_dir = False, tv_sec = 0, tv_nsec = 0\<rparr>"

definition nums0 :: sysnums where
  "nums0 = \<lparr>NR_syz_test = 1000001, NR_syz_open_dev = 1000002, NR_syz_open_pts = 1000003,
     NR_syz_fuse_mount = 1000004, NR_syz_fuseblk_mount = 1000005\<rparr>"

definition reply0 :: reply where
  "reply0 = \<lparr>rv = 0, errno = 0, out_int = 0, d_name = [], is_dir = False, tv_sec = 0, tv_nsec = 0\<rparr>"

text \<open>An environment in which every call fails with \<open>EPERM\<close>, and one in which only
  \<open>open\<close> succeeds (with descriptor 3).\<close>

definition os_fail :: os where
  "os_fail tr c = reply0\<lparr>rv := - 1, errno := 1\<rparr>"

definition os_open_only :: os where
  "os_open_only tr c = (case c of Open p f m \<Rightarrow> reply0\<lparr>rv := 3\<rparr> | _ \<Rightarrow> reply0\<lparr>rv := - 1, errno := 1\<rparr>)"

text \<open>
  What the specification says of the template: the placeholders, counted from the left
  starting at 0, are replaced by the decimal digits of \<open>v\<close> starting at the least
  significant one; every other character stays.
\<close>

definition fill_template :: "string \<Rightarrow> nat \<Rightarrow> string" where
  "fill_template t v =
     map (\<lambda>p. if t ! p = CHR ''#''
              then digit_char ((v div 10 ^ count_list (take p t) CHR ''#'') mod 10)
              else t ! p) [0..<length t]"

text \<open>The same, one character at a time.\<close>

fun fill_rec :: "string \<Rightarrow> nat \<Rightarrow> string" where
  "fill_rec [] v = []"
| "fill_rec (c # cs) v =
     (if c = CHR ''#'' then digit_char (v mod 10) # fill_rec cs (v div 10) else c # fill_rec cs v)"

section \<open>Sandboxes\<close>

definition PR_SET_PDEATHSIG :: nat where
  "PR_SET_PDEATHSIG = 1"

definition RLIMIT_FSIZE :: nat where
  "RLIMIT_FSIZE = 1"

definition RLIMIT_STACK :: nat where
  "RLIMIT_STACK = 3"

definition RLIMIT_CORE :: nat where
  "RLIMIT_CORE = 4"

definition RLIMIT_AS :: nat where
  "RLIMIT_AS = 9"

definition CLONE_NEWNS :: nat where
  "CLONE_NEWNS = 0x00020000"

definition CLONE_NEWIPC :: nat where
  "CLONE_NEWIPC = 0x08000000"

definition CLONE_IO :: nat where
  "CLONE_IO = 0x80000000"

definition EBUSY :: int where
  "EBUSY = 16"

definition EROFS :: int where
  "EROFS = 30"

definition ENOTEMPTY :: int where
  "ENOTEMPTY = 39"

definition EMFILE :: int where
  "EMFILE = 24"

definition MNT_DETACH :: nat where
  "MNT_DETACH = 2"

definition FILENAME_MAX :: nat where
  "FILENAME_MAX = 4096"

text \<open>A call whose result the source ignores.\<close>

definition sys_ignore :: "os \<Rightarrow> call \<Rightarrow> call list \<Rightarrow> call list" where
  "sys_ignore os c tr = snd (sys os c tr)"

definition sandbox_common :: "os \<Rightarrow> call list \<Rightarrow> call list" where
  "sandbox_common os tr =
     (let tr = sys_ignore os (Prctl PR_SET_PDEATHSIG SIGKILL) tr;
          tr = sys_ignore os Setpgrp tr;
          tr = sys_ignore os Setsid tr;
          tr = sys_ignore os (Setrlimit RLIMIT_AS (push_bit 20 128)) tr;
          tr = sys_ignore os (Setrlimit RLIMIT_FSIZE (push_bit 20 1)) tr;
          tr = sys_ignore os (Setrlimit RLIMIT_STACK (push_bit 20 1)) tr;
          tr = sys_ignore os (Setrlimit RLIMIT_CORE 0) tr;
          tr = sys_ignore os (Unshare CLONE_NEWNS) tr;
          tr = sys_ignore os (Unshare CLONE_NEWIPC) tr;
          tr = sys_ignore os (Unshare CLONE_IO) tr
      in tr)"

text \<open>
  \<open>loop\<close> is declared here and defined elsewhere unless \<open>SYZ_REPEAT\<close> is set: it is the
  parameter \<open>run_loop\<close>, with \<open>None\<close> for a loop that never returns. \<open>fork\<close> returns in two
  processes; the model follows the one the environment's answer selects.
\<close>

definition do_sandbox_setuid ::
  "os \<Rightarrow> (call list \<Rightarrow> (unit res \<times> call list) option) \<Rightarrow> call list
    \<Rightarrow> (int res \<times> call list) option" where
  "do_sandbox_setuid os run_loop tr =
     (let (r, tr) = sys os Fork tr;
          pid = (word_of_int (rv r) :: cint)
      in if pid \<noteq> 0 then Some (Ret (sint pid), tr)
         else
           (let tr = sandbox_common os tr;
                nobody = 65534;
                (r, tr) = sys os (Setgroups 0) tr
            in if (word_of_int (rv r) :: cint) \<noteq> 0 then Some (fail, tr)
               else
                 (let (r, tr) = sys os (Setresgid nobody nobody nobody) tr
                  in if (word_of_int (rv r) :: 64 word) \<noteq> 0 then Some (fail, tr)
                     else
                       (let (r, tr) = sys os (Setresuid nobody nobody nobody) tr
                        in if (word_of_int (rv r) :: 64 word) \<noteq> 0 then Some (fail, tr)
                           else
                             (case run_loop tr of
                                None \<Rightarrow> None
                              | Some (Exit s, tr) \<Rightarrow> Some (Exit s, tr)
                              | Some (Ret u, tr) \<Rightarrow> Some (Exit 1, tr))))))"

definition os_child_denied :: os where
  "os_child_denied tr c = (case c of Fork \<Rightarrow> reply0 | _ \<Rightarrow> reply0\<lparr>rv := - 1, errno := 1\<rparr>)"

section \<open>Directory reclamation: \<open>remove_dir\<close>\<close>

text \<open>\<open>snprintf(buf, size, ...)\<close> keeps at most \<open>size - 1\<close> bytes of the formatted string.\<close>

definition snprintf :: "nat \<Rightarrow> string \<Rightarrow> string" where
  "snprintf n s = take (n - 1) s"

text \<open>
  The inner loop of \<open>remove_dir\<close> on one entry that is not a directory, entered with
  \<open>i = 0\<close>. It ends: a round is repeated only while \<open>i \<le> 100\<close>.
\<close>

function unlink_loop :: "os \<Rightarrow> string \<Rightarrow> nat \<Rightarrow> call list \<Rightarrow> unit res \<times> call list" where
  "unlink_loop os filename i tr =
     (case sys os (Unlink filename) tr of
        (r, tr1) \<Rightarrow>
          if (word_of_int (rv r) :: cint) = 0 then (Ret (), tr1)
          else if errno r = EROFS then (Ret (), tr1)
          else if errno r \<noteq> EBUSY \<or> i > 100 then (exitf, tr1)
          else
            (case sys os (Umount2 filename MNT_DETACH) tr1 of
               (r2, tr2) \<Rightarrow>
                 if (word_of_int (rv r2) :: cint) \<noteq> 0 then (exitf, tr2)
                 else unlink_loop os filename (i + 1) tr2))"
  by pat_completeness auto
termination
  by (relation "measure (\<lambda>(os, filename, i, tr). 101 - i)") auto

declare unlink_loop.simps [simp del]

text \<open>
  \<open>remove_dir\<close> from its label \<open>retry\<close> with the current \<open>iter\<close>, the \<open>readdir\<close> loop
  and the \<open>rmdir\<close> loop. The environment decides how many entries a directory lists
  and how deep the tree is, so the three run on fuel: \<open>None\<close> is a run that has not
  ended when the fuel is used up.
\<close>

fun remove_dir_retry :: "os \<Rightarrow> nat \<Rightarrow> string \<Rightarrow> nat \<Rightarrow> call list \<Rightarrow> (unit res \<times> call list) option"
  and readdir_loop :: "os \<Rightarrow> nat \<Rightarrow> string \<Rightarrow> call list \<Rightarrow> (unit res \<times> call list) option"
  and rmdir_loop :: "os \<Rightarrow> nat \<Rightarrow> string \<Rightarrow> nat \<Rightarrow> nat \<Rightarrow> call list \<Rightarrow> (unit res \<times> call list) option"
where
  "remove_dir_retry os 0 dir iter tr = None"
| "remove_dir_retry os (Suc n) dir iter tr =
     (case sys os (Opendir dir) tr of
        (r, tr1) \<Rightarrow>
          if rv r = 0 then (if errno r = EMFILE then Some (exitf, tr1) else Some (exitf, tr1))
          else
            (case readdir_loop os n dir tr1 of
               None \<Rightarrow> None
             | Some (Exit s, tr2) \<Rightarrow> Some (Exit s, tr2)
             | Some (Ret u, tr2) \<Rightarrow> rmdir_loop os n dir iter 0 (sys_ignore os (Closedir dir) tr2)))"
| "readdir_loop os 0 dir tr = None"
| "readdir_loop os (Suc n) dir tr =
     (case sys os (Readdir dir) tr of
        (r, tr1) \<Rightarrow>
          if rv r = 0 then Some (Ret (), tr1)
          else if d_name r = ''.'' \<or> d_name r = ''..'' then readdir_loop os n dir tr1
          else
            (let filename = snprintf FILENAME_MAX (dir @ ''/'' @ d_name r)
             in case sys os (Lstat filename) tr1 of
                  (r2, tr2) \<Rightarrow>
                    if (word_of_int (rv r2) :: cint) \<noteq> 0 then Some (exitf, tr2)
                    else if is_dir r2 then
                      (case remove_dir_retry os n filename 0 tr2 of
                         None \<Rightarrow> None
                       | Some (Exit s, tr3) \<Rightarrow> Some (Exit s, tr3)
                       | Some (Ret u, tr3) \<Rightarrow> readdir_loop os n dir tr3)
                    else
                      (case unlink_loop os filename 0 tr2 of
                         (Exit s, tr3) \<Rightarrow> Some (Exit s, tr3)
                       | (Ret u, tr3) \<Rightarrow> readdir_loop os n dir tr3)))"
| "rmdir_loop os 0 dir iter i tr = None"
| "rmdir_loop os (Suc n) dir iter i tr =
     (case sys os (Rmdir dir) tr of
        (r, tr1) \<Rightarrow>
          if (word_of_int (rv r) :: cint) = 0 then Some (Ret (), tr1)
          else if i < 100 then
            (if errno r = EROFS then Some (Ret (), tr1)
             else if errno r = EBUSY then
               (case sys os (Umount2 dir MNT_DETACH) tr1 of
                  (r2, tr2) \<Rightarrow>
                    if (word_of_int (rv r2) :: cint) \<noteq> 0 then Some (exitf, tr2)
                    else rmdir_loop os n dir iter (i + 1) tr2)
             else if errno r = ENOTEMPTY \<and> iter < 100 then remove_dir_retry os n dir (iter + 1) tr1
             else Some (exitf, tr1))
          else Some (exitf, tr1))"

definition remove_dir :: "os \<Rightarrow> nat \<Rightarrow> string \<Rightarrow> call list \<Rightarrow> (unit res \<times> call list) option" where
  "remove_dir os fuel dir tr = remove_dir_retry os fuel dir 0 tr"

text \<open>A directory \<open>./0\<close> holding one file \<open>f\<close> that is a busy mount point for ever.\<close>

definition os_busy :: os where
  "os_busy tr c =
     (case c of
        Opendir d \<Rightarrow> reply0\<lparr>rv := 1\<rparr>
      | Readdir d \<Rightarrow> (if Readdir d \<in> set tr then reply0 else reply0\<lparr>rv := 1, d_name := ''f''\<rparr>)
      | Unlink p \<Rightarrow> reply0\<lparr>rv := - 1, errno := EBUSY\<rparr>
      | Rmdir p \<Rightarrow> reply0\<lparr>rv := - 1, errno := ENOTEMPTY\<rparr>
      | _ \<Rightarrow> reply0)"

text \<open>The calls that \<open>remove_dir\<close> makes.\<close>

fun reclaim_call :: "call \<Rightarrow> bool" where
  "reclaim_call (Opendir d) = True"
| "reclaim_call (Readdir d) = True"
| "reclaim_call (Closedir d) = True"
| "reclaim_call (Lstat p) = True"
| "reclaim_call (Unlink p) = True"
| "reclaim_call (Umount2 p f) = True"
| "reclaim_call (Rmdir p) = True"
| "reclaim_call c = False"

text \<open>\<open>extends tr tr'\<close>: the history \<open>tr'\<close> is \<open>tr\<close> followed by calls of \<open>remove_dir\<close> only.
  \<open>retry_exit x\<close>: if \<open>x\<close> is an exit, its status is \<open>kRetryStatus\<close>.\<close>

definition extends :: "call list \<Rightarrow> call list \<Rightarrow> bool" where
  "extends tr tr' = (\<exists>ev. tr' = tr @ ev \<and> list_all reclaim_call ev)"

definition retry_exit :: "unit res \<Rightarrow> bool" where
  "retry_exit x = (case x of Ret u \<Rightarrow> True | Exit s \<Rightarrow> s = kRetryStatus)"

text \<open>An environment in which every call fails with \<open>EROFS\<close>.\<close>

definition os_rofs :: os where
  "os_rofs tr c = reply0\<lparr>rv := - 1, errno := EROFS\<rparr>"

section \<open>The supervisor: \<open>loop\<close>\<close>



definition current_time_ms :: "os \<Rightarrow> call list \<Rightarrow> 64 word res \<times> call list" where
  "current_time_ms os tr =
     (case sys os Clock_gettime tr of
        (r, tr1) \<Rightarrow>
          if (word_of_int (rv r) :: cint) \<noteq> 0 then (fail, tr1)
          else (Ret (tv_sec r * 1000 + tv_nsec r div 1000000), tr1))"









section \<open>Unguarded faults\<close>

text \<open>
  C4. When SIGSEGV or SIGBUS is delivered while \<open>skip_segv\<close> is zero, the handler exits
  with the signal number as status, and that status is none of \<open>kFailStatus\<close>,
  \<open>kErrorStatus\<close>, \<open>kRetryStatus\<close>.
\<close>

theorem unguarded_fault_exits_with_signal:
  assumes "sig = SIGSEGV \<or> sig = SIGBUS" and "skip_segv t = 0"
  shows "step t (Fault sig # k) = Exited sig
    \<and> segv_handler sig t = ExitSig sig
    \<and> sig \<noteq> kFailStatus \<and> sig \<noteq> kErrorStatus \<and> sig \<noteq> kRetryStatus"
  using assms
  by (auto simp: segv_handler_def SIGSEGV_def SIGBUS_def kFailStatus_def kErrorStatus_def
      kRetryStatus_def)

theorem unguarded_fault_exits_with_signal_witness:
  "(SIGSEGV = SIGSEGV \<or> SIGSEGV = SIGBUS) \<and> skip_segv thread0 = 0
    \<and> step thread0 (Fault SIGSEGV # [Stmt 1]) = Exited SIGSEGV
    \<and> SIGSEGV \<noteq> kFailStatus"
  using unguarded_fault_exits_with_signal [of SIGSEGV thread0 "[Stmt 1]"]
  by (simp add: thread0_def)

section \<open>Guarded blocks\<close>

lemma run_add: "run (m + n) c = run n (run m c)"
proof (induction m arbitrary: c)
  case 0
  show ?case by simp
next
  case (Suc m)
  show ?case
  proof (cases c)
    case (Running t k)
    with Suc show ?thesis by simp
  next
    case (Exited s)
    then show ?thesis by (cases n) simp_all
  next
    case (Finished t)
    then show ?thesis by (cases n) simp_all
  next
    case Undefined
    then show ?thesis by (cases n) simp_all
  qed
qed

lemma run_stmts:
  "run (length ls) (Running t (map Stmt ls @ k)) = Running (t\<lparr>executed := executed t @ ls\<rparr>) k"
  by (induction ls arbitrary: t) simp_all

text \<open>
  A guard around a block with no guard inside it, whose statements \<open>ls\<close> complete and
  whose next access faults: the thread stays alive, \<open>post\<close> is never run, one
  \<open>_longjmp\<close> is taken, the code after the guard runs next and \<open>skip_segv\<close> is what it
  was before the guard. The counter must be armed after the increment.
\<close>

lemma guard_fault:
  assumes "skip_segv t + 1 \<noteq> 0"
  shows "run (length ls + 4) (Running t (NONFAILING (map Stmt ls @ Fault sig # post) @ k))
    = Running (t\<lparr>segv_env := Some (FetchSub # k), executed := executed t @ ls,
        jumps := jumps t + 1\<rparr>) k"
proof -
  have n: "length ls + 4 = 2 + (length ls + 2)" by simp
  have "run (length ls + 4) (Running t (NONFAILING (map Stmt ls @ Fault sig # post) @ k))
    = run (2 + (length ls + 2)) (Running t (NONFAILING (map Stmt ls @ Fault sig # post) @ k))"
    by (simp only: n)
  also have "\<dots> = run (length ls + 2)
      (Running (t\<lparr>skip_segv := skip_segv t + 1, segv_env := Some (FetchSub # k)\<rparr>)
        (map Stmt ls @ Fault sig # post @ FetchSub # k))"
    unfolding run_add by (simp add: NONFAILING_def numeral_2_eq_2)
  also have "\<dots> = run 2
      (Running (t\<lparr>skip_segv := skip_segv t + 1, segv_env := Some (FetchSub # k),
         executed := executed t @ ls\<rparr>) (Fault sig # post @ FetchSub # k))"
    unfolding run_add run_stmts by simp
  also have "\<dots> = Running (t\<lparr>segv_env := Some (FetchSub # k), executed := executed t @ ls,
        jumps := jumps t + 1\<rparr>) k"
    using assms by (simp add: numeral_2_eq_2 segv_handler_def)
  finally show ?thesis .
qed

text \<open>The same guard when nothing in the block faults: no jump, same counter.\<close>

lemma guard_nofault:
  "run (length ls + 3) (Running t (NONFAILING (map Stmt ls) @ k))
    = Running (t\<lparr>segv_env := Some (FetchSub # k), executed := executed t @ ls\<rparr>) k"
proof -
  have n: "length ls + 3 = 2 + (length ls + 1)" by simp
  have "run (length ls + 3) (Running t (NONFAILING (map Stmt ls) @ k))
    = run (2 + (length ls + 1)) (Running t (NONFAILING (map Stmt ls) @ k))"
    by (simp only: n)
  also have "\<dots> = run (length ls + 1)
      (Running (t\<lparr>skip_segv := skip_segv t + 1, segv_env := Some (FetchSub # k)\<rparr>)
        (map Stmt ls @ FetchSub # k))"
    unfolding run_add by (simp add: NONFAILING_def numeral_2_eq_2)
  also have "\<dots> = run 1
      (Running (t\<lparr>skip_segv := skip_segv t + 1, segv_env := Some (FetchSub # k),
         executed := executed t @ ls\<rparr>) (FetchSub # k))"
    unfolding run_add run_stmts by simp
  also have "\<dots> = Running (t\<lparr>segv_env := Some (FetchSub # k), executed := executed t @ ls\<rparr>) k"
    by simp
  finally show ?thesis .
qed

text \<open>
  C1. A guarded block that faults leaves the process alive, abandons the rest of the
  block, resumes once right after the guard and restores \<open>skip_segv\<close>. The code breaks
  this for a block that holds a completed inner guard: \<open>segv_env\<close> is one buffer and the
  inner \<open>_setjmp\<close> overwrites it. With \<open>skip_segv = 0\<close>, the block
  \<open>NONFAILING(NONFAILING(s1); *bad; s2); s3\<close> jumps back to the end of the inner guard,
  decrements a second time, repeats the access with the counter at zero and exits with
  SIGSEGV; neither \<open>s2\<close> nor \<open>s3\<close> runs.
\<close>

theorem nested_guard_fault_exits:
  "run 9 (Running thread0
      (NONFAILING (NONFAILING [Stmt 1] @ [Fault SIGSEGV, Stmt 2]) @ [Stmt 3])) = Exited SIGSEGV
   \<and> run 8 (Running thread0
      (NONFAILING (NONFAILING [Stmt 1] @ [Fault SIGSEGV, Stmt 2]) @ [Stmt 3]))
     = Running \<lparr>skip_segv = 0,
         segv_env = Some [FetchSub, Fault SIGSEGV, Stmt 2, FetchSub, Stmt 3],
         executed = [1], jumps = 1\<rparr> [Fault SIGSEGV, Stmt 2, FetchSub, Stmt 3]"
  by (simp add: NONFAILING_def thread0_def eval_nat_numeral segv_handler_def)

section \<open>The dispatcher and \<open>syz_open_dev\<close> on the device markers\<close>

lemma digit_char_eval:
  "digit_char 0 = CHR ''0''" "digit_char 1 = CHR ''1''" "digit_char 2 = CHR ''2''"
  "digit_char 3 = CHR ''3''" "digit_char 4 = CHR ''4''" "digit_char 5 = CHR ''5''"
  "digit_char 6 = CHR ''6''" "digit_char 7 = CHR ''7''" "digit_char 8 = CHR ''8''"
  "digit_char 9 = CHR ''9''" "digit_char (Suc 0) = CHR ''1''"
  by code_simp+

lemma low_byte: "uint (ucast (a :: 64 word) :: 8 word) = int (unat a mod 256)"
  by (simp add: unsigned_ucast_eq take_bit_eq_mod zmod_int)

text \<open>
  C7. When the first argument of \<open>syz_open_dev\<close> is the marker \<open>0xc\<close> (char) or
  \<open>0xb\<close> (block), the one call made is \<open>open\<close> of \<open>/dev/char/M:N\<close> or
  \<open>/dev/block/M:N\<close> with \<open>O_RDWR\<close>, where \<open>M\<close> and \<open>N\<close> are the second and third
  arguments modulo 256 in decimal, and the result of \<open>open\<close> is returned.
\<close>

theorem open_dev_char_block:
  assumes "a0 = 0xc \<or> a0 = 0xb"
  shows "syz_open_dev os mem a0 a1 a2 tr =
    (let path = ''/dev/'' @ (if a0 = 0xc then ''char'' else ''block'') @ ''/''
                 @ fmt_d (int (unat a1 mod 256)) @ '':'' @ fmt_d (int (unat a2 mod 256))
     in (scast (word_of_int (rv (os tr (Open path O_RDWR 0))) :: cint), tr @ [Open path O_RDWR 0]))"
  using assms by (simp add: syz_open_dev_def sys_def Let_def low_byte)

theorem open_dev_char_block_witness:
  "((0xc :: uintptr) = 0xc \<or> (0xc :: uintptr) = 0xb)
   \<and> syz_open_dev os_ok (\<lambda>_. []) 0xc 0x104 0x2ff [] = (3, [Open ''/dev/char/4:255'' O_RDWR 0])"
  using open_dev_char_block [of "0xc" os_ok "\<lambda>_. []" "0x104" "0x2ff" "[]"]
  by (simp add: os_ok_def fmt_d_def digits.simps digit_char_eval)

text \<open>
  C3, as the code has it. The dispatcher intercepts five numbers, not four: \<open>syz_test\<close>
  has a case of its own that returns 0 and calls nothing. For every number other than
  those five, the one call made is the host \<open>syscall\<close> with that number and the first
  six arguments unchanged, and its result is returned.
\<close>

theorem dispatch_default:
  assumes "nr \<noteq> NR_syz_test nums" "nr \<noteq> NR_syz_open_dev nums" "nr \<noteq> NR_syz_open_pts nums"
    "nr \<noteq> NR_syz_fuse_mount nums" "nr \<noteq> NR_syz_fuseblk_mount nums"
  shows "execute_syscall os mem nums nr a0 a1 a2 a3 a4 a5 a6 a7 a8 tr
    = (word_of_int (rv (os tr (Syscall nr [a0, a1, a2, a3, a4, a5]))),
       tr @ [Syscall nr [a0, a1, a2, a3, a4, a5]])"
  using assms by (simp add: execute_syscall_def sys_def)

theorem dispatch_default_witness:
  "execute_syscall os_ok (\<lambda>_. []) nums0 39 1 2 3 4 5 6 7 8 9 [] = (3, [Syscall 39 [1, 2, 3, 4, 5, 6]])"
  using dispatch_default [of 39 nums0 os_ok "\<lambda>_. []" 1 2 3 4 5 6 7 8 9 "[]"]
  by (simp add: nums0_def os_ok_def)

text \<open>
  The claim as stated fails at the number of \<open>syz_test\<close>: it is none of the four
  pseudo-calls the claim names, yet the dispatcher returns 0 without a host call.
\<close>

theorem dispatch_syz_test_counterexample:
  "NR_syz_test nums0 \<noteq> NR_syz_open_dev nums0 \<and> NR_syz_test nums0 \<noteq> NR_syz_open_pts nums0
   \<and> NR_syz_test nums0 \<noteq> NR_syz_fuse_mount nums0 \<and> NR_syz_test nums0 \<noteq> NR_syz_fuseblk_mount nums0
   \<and> execute_syscall os_ok (\<lambda>_. []) nums0 (NR_syz_test nums0) 1 2 3 4 5 6 7 8 9 [] = (0, [])
   \<and> execute_syscall os_ok (\<lambda>_. []) nums0 (NR_syz_test nums0) 1 2 3 4 5 6 7 8 9 []
       \<noteq> (word_of_int (rv (os_ok [] (Syscall (NR_syz_test nums0) [1, 2, 3, 4, 5, 6]))),
           [Syscall (NR_syz_test nums0) [1, 2, 3, 4, 5, 6]])"
  by (simp add: execute_syscall_def nums0_def)

section \<open>The FUSE mounts\<close>

lemma and_1_bit: "(w AND 1 \<noteq> 0) = bit (w :: 64 word) 0"
  by (simp add: and_one_eq bit_0 mod_2_eq_odd)

lemma and_2_bit: "(w AND 2 \<noteq> 0) = bit (w :: 64 word) 1"
proof -
  have "w AND 2 = w AND push_bit 1 1" by simp
  then show ?thesis
    using bit_iff_and_push_bit_not_eq_0 by fastforce
qed

lemma and_minus4: "(w :: 32 word) AND - 4 = push_bit 2 (drop_bit 2 w)"
proof -
  have m: "(- 4 :: 32 word) = NOT (mask 2)" by (simp add: mask_numeral)
  have s: "Suc (Suc (n - 2)) = n" if "2 \<le> n" for n using that by simp
  show ?thesis
    unfolding m by (rule bit_word_eqI) (auto simp: bit_simps s not_less)
qed

lemma mask_low2: "unat ((w :: 32 word) AND - 4) = 4 * (unat w div 4)"
proof -
  have "unat w div 4 * 4 \<le> unat w" by simp
  also have "unat w < 2 ^ 32" using unsigned_less [of w] by simp
  finally have "4 * (unat w div 4) < 2 ^ 32" by (simp add: mult.commute)
  then have "(4 * (unat w div 4)) mod 2 ^ 32 = 4 * (unat w div 4)" by simp
  moreover have "unat (4 * (w div 4)) = (4 * (unat w div 4)) mod 2 ^ 32"
    by (simp add: unat_word_ariths unat_div mod_mult_right_eq)
  moreover have "w AND - 4 = 4 * (w div 4)"
    by (simp add: and_minus4 push_bit_eq_mult drop_bit_eq_div)
  ultimately show ?thesis by simp
qed

lemma unat_ucast32: "unat (ucast (mode :: 64 word) :: 32 word) = unat mode mod 2 ^ 32"
  by (simp add: unsigned_ucast_eq take_bit_eq_mod)

text \<open>
  C8. \<open>syz_fuse_mount\<close> opens \<open>/dev/fuse\<close>. If \<open>open\<close> returns \<open>-1\<close>, that value is
  returned and nothing else is called. Otherwise \<open>mount\<close> is called once, on the caller's
  target with type \<open>fuse\<close> and the caller's flags, with an option string made of the
  descriptor, the uid and gid as signed decimals, the mode as an unsigned 32-bit value
  with its two low bits cleared in octal, \<open>max_read\<close> exactly when the argument is not
  zero, \<open>default_permissions\<close> exactly when bit 0 of the mode is set and \<open>allow_other\<close>
  exactly when bit 1 is set. The descriptor is returned whatever \<open>mount\<close> answers.
\<close>

theorem fuse_mount_contract:
  "syz_fuse_mount os target mode uid gid maxread flags tr =
    (let opn = Open ''/dev/fuse'' O_RDWR 0;
         fd = (word_of_int (rv (os tr opn)) :: cint)
     in if fd = - 1 then (- 1, tr @ [opn])
        else
          (scast fd,
           tr @ [opn, Mount (Str '''') target ''fuse'' flags
              (''fd='' @ fmt_d (sint fd) @ '',user_id='' @ fmt_d (sint uid)
                @ '',group_id='' @ fmt_d (sint gid)
                @ '',rootmode=0'' @ fmt_o (4 * (unat mode mod 2 ^ 32 div 4))
                @ (if maxread \<noteq> 0 then '',max_read='' @ fmt_d (sint maxread) else [])
                @ (if bit mode 0 then '',default_permissions'' else [])
                @ (if bit mode 1 then '',allow_other'' else []))]))"
  by (simp add: syz_fuse_mount_def Let_def sys_def fuse_opts_head_def and_1_bit and_2_bit mask_low2
      unat_ucast32)

text \<open>Three runs: \<open>open\<close> fails; \<open>open\<close> succeeds and \<open>mount\<close> fails, with both mode
  bits and \<open>max_read\<close>; the same with neither.\<close>

theorem fuse_mount_contract_witness:
  "syz_fuse_mount os_fail 0x2000 0x4003 1000 1000 4096 0 [] = (- 1, [Open ''/dev/fuse'' O_RDWR 0])
   \<and> syz_fuse_mount os_open_only 0x2000 0x4003 1000 (- 1) 4096 0 []
     = (3, [Open ''/dev/fuse'' O_RDWR 0, Mount (Str '''') 0x2000 ''fuse'' 0
         ''fd=3,user_id=1000,group_id=-1,rootmode=040000,max_read=4096,default_permissions,allow_other''])
   \<and> syz_fuse_mount os_open_only 0x2000 0x4000 0 0 0 0 []
     = (3, [Open ''/dev/fuse'' O_RDWR 0, Mount (Str '''') 0x2000 ''fuse'' 0
         ''fd=3,user_id=0,group_id=0,rootmode=040000''])"
  using fuse_mount_contract [of os_fail "0x2000" "0x4003" 1000 1000 4096 0 "[]"]
    fuse_mount_contract [of os_open_only "0x2000" "0x4003" 1000 "- 1" 4096 0 "[]"]
    fuse_mount_contract [of os_open_only "0x2000" "0x4000" 0 0 0 0 "[]"]
  by (simp add: os_fail_def os_open_only_def reply0_def fmt_d_def fmt_o_def digits.simps
      digit_char_eval bit_numeral_simps)

text \<open>
  C10. In \<open>syz_fuseblk_mount\<close>, when \<open>open\<close> succeeds and \<open>mknodat\<close> returns non-zero,
  the descriptor is returned and the calls made are \<open>open\<close> and \<open>mknodat\<close> only: no
  \<open>mount\<close>. Every \<open>mknodat\<close> the function makes, whatever its arguments and
  environment, is for a block device at the caller's path with \<open>makedev(7, 199)\<close>.
\<close>

theorem fuseblk_mknod_failure:
  "((word_of_int (rv (os tr (Open ''/dev/fuse'' O_RDWR 0))) :: cint) \<noteq> - 1
      \<and> (word_of_int (rv (os (tr @ [Open ''/dev/fuse'' O_RDWR 0])
            (Mknodat AT_FDCWD blkdev S_IFBLK (makedev 7 199)))) :: 64 word) \<noteq> 0
     \<longrightarrow> syz_fuseblk_mount os target blkdev mode uid gid maxread blksize flags tr
        = (scast (word_of_int (rv (os tr (Open ''/dev/fuse'' O_RDWR 0))) :: cint),
           tr @ [Open ''/dev/fuse'' O_RDWR 0, Mknodat AT_FDCWD blkdev S_IFBLK (makedev 7 199)]))
   \<and> (\<forall>d p m dv. Mknodat d p m dv \<in> set (drop (length tr)
          (snd (syz_fuseblk_mount os target blkdev mode uid gid maxread blksize flags tr)))
        \<longrightarrow> d = AT_FDCWD \<and> p = blkdev \<and> m = S_IFBLK \<and> dv = makedev 7 199)
   \<and> makedev 7 199 = 0x7c7"
  by (simp add: syz_fuseblk_mount_def Let_def sys_def makedev_def split: if_splits)

theorem fuseblk_mknod_failure_witness:
  "(word_of_int (rv (os_open_only [] (Open ''/dev/fuse'' O_RDWR 0))) :: cint) \<noteq> - 1
   \<and> (word_of_int (rv (os_open_only [Open ''/dev/fuse'' O_RDWR 0]
          (Mknodat AT_FDCWD 0x3000 S_IFBLK (makedev 7 199)))) :: 64 word) \<noteq> 0
   \<and> syz_fuseblk_mount os_open_only 0x2000 0x3000 0x4003 1 2 4096 512 0 []
      = (3, [Open ''/dev/fuse'' O_RDWR 0, Mknodat AT_FDCWD 0x3000 S_IFBLK 0x7c7])
   \<and> Mknodat AT_FDCWD 0x3000 S_IFBLK 0x7c7
      \<in> set (drop (length ([] :: call list))
           (snd (syz_fuseblk_mount os_open_only 0x2000 0x3000 0x4003 1 2 4096 512 0 [])))"
  using fuseblk_mknod_failure [of os_open_only "[]" "0x3000" "0x2000" "0x4003" 1 2 4096 512 0]
  by (simp add: os_open_only_def reply0_def)

section \<open>\<open>syz_open_dev\<close> on a path template\<close>

lemma strchr_append:
  "c \<notin> set pre \<Longrightarrow>
     strchr (pre @ s) c = (case strchr s c of None \<Rightarrow> None | Some i \<Rightarrow> Some (length pre + i))"
  by (induction pre) (auto split: option.splits)

lemma subst_hashes_prefix:
  "CHR ''#'' \<notin> set pre \<Longrightarrow>
     subst_hashes (pre @ s) a = (pre @ fst (subst_hashes s a), snd (subst_hashes s a))"
proof (induction s a rule: subst_hashes.induct)
  case (1 buf a1)
  show ?case
  proof (cases "strchr buf CHR ''#''")
    case None
    with 1(2) have "strchr (pre @ buf) CHR ''#'' = None" by (simp add: strchr_append)
    with None show ?thesis by (simp add: subst_hashes.simps [of buf] subst_hashes.simps [of "pre @ buf"])
  next
    case (Some i)
    with 1(2) have s: "strchr (pre @ buf) CHR ''#'' = Some (length pre + i)"
      by (simp add: strchr_append)
    have u: "(pre @ buf)[length pre + i := d] = pre @ buf[i := d]" for d
      by (simp add: list_update_append)
    from 1(1) [OF Some 1(2)] Some s u show ?thesis
      by (simp add: subst_hashes.simps [of buf] subst_hashes.simps [of "pre @ buf"])
  qed
qed

lemma subst_hashes_fill_rec: "fst (subst_hashes s a) = fill_rec s (unat a)"
proof (induction s arbitrary: a)
  case Nil
  show ?case by (simp add: subst_hashes.simps)
next
  case (Cons c cs)
  show ?case
  proof (cases "c = CHR ''#''")
    case True
    have d: "CHR ''#'' \<notin> set [digit_char (unat (a mod 10))]"
      using digit_char_neq_hash [OF unat_mod10_less, of a] by auto
    have "subst_hashes (c # cs) a = subst_hashes ([digit_char (unat (a mod 10))] @ cs) (a div 10)"
      by (subst subst_hashes.simps) (simp add: True)
    also have "fst \<dots> = digit_char (unat (a mod 10)) # fst (subst_hashes cs (a div 10))"
      by (simp only: subst_hashes_prefix [OF d]) simp
    finally show ?thesis using True Cons [of "a div 10"]
      by (simp add: unat_div unat_mod)
  next
    case False
    then have "CHR ''#'' \<notin> set [c]" by simp
    from subst_hashes_prefix [OF this, of cs a] False Cons [of a] show ?thesis by simp
  qed
qed

lemma fill_rec_template: "fill_rec t v = fill_template t v"
proof (induction t arbitrary: v)
  case Nil
  show ?case by (simp add: fill_template_def)
next
  case (Cons c cs)
  have "fill_template (c # cs) v =
      (if c = CHR ''#'' then digit_char (v mod 10) else c)
      # map (\<lambda>p. if cs ! p = CHR ''#''
              then digit_char ((v div 10 ^ count_list (take (Suc p) (c # cs)) CHR ''#'') mod 10)
              else cs ! p) [0..<length cs]"
    unfolding fill_template_def
    by (simp add: upt_conv_Cons map_Suc_upt [symmetric] del: upt_Suc map_Suc_upt)
  also have "\<dots> = (if c = CHR ''#'' then digit_char (v mod 10) # fill_template cs (v div 10)
              else c # fill_template cs v)"
    by (simp add: fill_template_def div_mult2_eq)
  finally show ?case using Cons by simp
qed

lemma subst_hashes_fill: "fst (subst_hashes s a) = fill_template s (unat a)"
  by (simp add: subst_hashes_fill_rec fill_rec_template)

lemma fill_template_no_hash: "CHR ''#'' \<notin> set t \<Longrightarrow> fill_template t v = t"
proof (rule nth_equalityI)
  show "length (fill_template t v) = length t" by (simp add: fill_template_def)
next
  fix i
  assume h: "CHR ''#'' \<notin> set t" and "i < length (fill_template t v)"
  then have i: "i < length t" by (simp add: fill_template_def)
  have "t ! i \<in> set t" using i by (rule nth_mem)
  with h have "t ! i \<noteq> CHR ''#''" by metis
  with i show "fill_template t v ! i = t ! i" by (simp add: fill_template_def)
qed

lemma fill_rec_prefix: "CHR ''#'' \<notin> set pre \<Longrightarrow> fill_rec (pre @ s) v = pre @ fill_rec s v"
  by (induction pre) auto

lemma c_str_no_nul: "CHR 0x00 \<notin> set s \<Longrightarrow> c_str s = s"
  by (simp add: c_str_def takeWhile_eq_all_conv) metis

text \<open>
  C2, as the code has it. When the first argument is neither marker, the one call made
  is \<open>open\<close> with the third argument as flags (converted to \<open>int\<close>) and mode 0, on the
  path obtained from the first 1023 bytes of the template string by replacing the
  placeholders, left to right, with the decimal digits of the second argument, least
  significant first. The buffer has 1024 bytes and its last byte is set to NUL, so a
  longer template is cut.
\<close>

theorem open_dev_template:
  assumes "a0 \<noteq> 0xc" and "a0 \<noteq> 0xb"
  shows "syz_open_dev os mem a0 a1 a2 tr =
    (let path = fill_template (take 1023 (c_str (mem a0))) (unat a1)
     in (scast (word_of_int (rv (os tr (Open path (ucast a2) 0))) :: cint),
         tr @ [Open path (ucast a2) 0]))"
  using assms subst_hashes_fill [of "take 1023 (c_str (mem a0))" a1]
  by (simp add: syz_open_dev_def Let_def sys_def strncpy_def set_nul_def split_def)

theorem open_dev_template_witness:
  "(0x1000 :: uintptr) \<noteq> 0xc \<and> (0x1000 :: uintptr) \<noteq> 0xb
   \<and> syz_open_dev os_ok (\<lambda>_. ''/dev/tty#x##'') 0x1000 4095 0x802 []
     = (3, [Open ''/dev/tty5x90'' 0x802 0])"
  using open_dev_template [of "0x1000" os_ok "\<lambda>_. ''/dev/tty#x##''" 4095 "0x802" "[]"]
  by (simp add: os_ok_def c_str_def fill_template_def digit_char_eval upt_conv_Cons)

text \<open>
  The claim as stated fails on a template of 1024 bytes whose last byte is the
  placeholder: the path opened is the first 1023 bytes, without the digit.
\<close>

theorem open_dev_template_counterexample:
  "length (replicate 1023 CHR ''a'' @ ''#'') = 1024
   \<and> snd (syz_open_dev os_ok (\<lambda>_. replicate 1023 CHR ''a'' @ ''#'') 0x1000 7 0 [])
      = [Open (replicate 1023 CHR ''a'') 0 0]
   \<and> fill_template (c_str (replicate 1023 CHR ''a'' @ ''#'')) (unat (7 :: uintptr))
      = replicate 1023 CHR ''a'' @ ''7''
   \<and> snd (syz_open_dev os_ok (\<lambda>_. replicate 1023 CHR ''a'' @ ''#'') 0x1000 7 0 [])
      \<noteq> [Open (fill_template (c_str (replicate 1023 CHR ''a'' @ ''#'')) (unat (7 :: uintptr))) 0 0]"
proof -
  let ?t = "replicate 1023 CHR ''a'' @ ''#''"
  have c: "c_str ?t = ?t" by (rule c_str_no_nul) simp
  have n: "CHR ''#'' \<notin> set (replicate 1023 CHR ''a'')" by simp
  have p: "fst (subst_hashes (replicate 1023 CHR ''a'') 7) = replicate 1023 CHR ''a''"
    by (simp only: subst_hashes_fill fill_template_no_hash [OF n])
  have code: "snd (syz_open_dev os_ok (\<lambda>_. ?t) 0x1000 7 0 []) = [Open (replicate 1023 CHR ''a'') 0 0]"
    using p by (simp add: syz_open_dev_def Let_def sys_def strncpy_def set_nul_def split_def c)
  have "fill_rec ?t 7 = replicate 1023 CHR ''a'' @ fill_rec ''#'' 7"
    using n by (rule fill_rec_prefix)
  then have spec: "fill_template (c_str ?t) (unat (7 :: uintptr)) = replicate 1023 CHR ''a'' @ ''7''"
    by (simp add: c fill_rec_template [symmetric] digit_char_eval)
  have "length (replicate 1023 CHR ''a'') \<noteq> length (replicate 1023 CHR ''a'' @ ''7'')" by simp
  then have "replicate 1023 CHR ''a'' \<noteq> replicate 1023 CHR ''a'' @ ''7''" by metis
  with code spec show ?thesis by simp
qed

section \<open>The setuid sandbox\<close>

lemma setuid_unfold:
  assumes "(word_of_int (rv (os tr Fork)) :: cint) = 0"
  shows "do_sandbox_setuid os run_loop tr =
    (let tr0 = sandbox_common os (tr @ [Fork]);
         tr1 = tr0 @ [Setgroups 0];
         tr2 = tr1 @ [Setresgid 65534 65534 65534];
         tr3 = tr2 @ [Setresuid 65534 65534 65534]
     in if (word_of_int (rv (os tr0 (Setgroups 0))) :: cint) \<noteq> 0 then Some (Exit kFailStatus, tr1)
        else if (word_of_int (rv (os tr1 (Setresgid 65534 65534 65534))) :: 64 word) \<noteq> 0
          then Some (Exit kFailStatus, tr2)
        else if (word_of_int (rv (os tr2 (Setresuid 65534 65534 65534))) :: 64 word) \<noteq> 0
          then Some (Exit kFailStatus, tr3)
        else (case run_loop tr3 of
                None \<Rightarrow> None
              | Some (Exit s, tr) \<Rightarrow> Some (Exit s, tr)
              | Some (Ret u, tr) \<Rightarrow> Some (Exit 1, tr)))"
  using assms by (simp add: do_sandbox_setuid_def sys_def Let_def fail_def)

text \<open>
  C9. In the child of \<open>do_sandbox_setuid\<close>, when \<open>setgroups(0, NULL)\<close>, \<open>setresgid\<close> or
  \<open>setresuid\<close> to 65534 returns non-zero, the process exits with \<open>kFailStatus\<close>; the
  calls made stop at the one that failed, and \<open>loop\<close> is not entered.
\<close>

theorem setuid_failure_is_fatal:
  assumes child: "(word_of_int (rv (os tr Fork)) :: cint) = 0"
    and tr0: "tr0 = sandbox_common os (tr @ [Fork])"
    and failure: "(word_of_int (rv (os tr0 (Setgroups 0))) :: cint) \<noteq> 0
      \<or> (word_of_int (rv (os (tr0 @ [Setgroups 0]) (Setresgid 65534 65534 65534))) :: 64 word) \<noteq> 0
      \<or> (word_of_int (rv (os (tr0 @ [Setgroups 0, Setresgid 65534 65534 65534])
            (Setresuid 65534 65534 65534))) :: 64 word) \<noteq> 0"
  shows "\<exists>n. do_sandbox_setuid os run_loop tr
      = Some (Exit kFailStatus,
          take n (tr0 @ [Setgroups 0, Setresgid 65534 65534 65534, Setresuid 65534 65534 65534]))"
proof -
  let ?g = "Setgroups 0" and ?rg = "Setresgid 65534 65534 65534" and ?ru = "Setresuid 65534 65534 65534"
  let ?all = "tr0 @ [?g, ?rg, ?ru]"
  have t1: "tr0 @ [?g] = take (length tr0 + 1) ?all" by simp
  have t2: "tr0 @ [?g, ?rg] = take (length tr0 + 2) ?all" by simp
  have t3: "?all = take (length tr0 + 3) ?all" by simp
  consider (a) "(word_of_int (rv (os tr0 ?g)) :: cint) \<noteq> 0"
    | (b) "(word_of_int (rv (os tr0 ?g)) :: cint) = 0"
          "(word_of_int (rv (os (tr0 @ [?g]) ?rg)) :: 64 word) \<noteq> 0"
    | (c) "(word_of_int (rv (os tr0 ?g)) :: cint) = 0"
          "(word_of_int (rv (os (tr0 @ [?g]) ?rg)) :: 64 word) = 0"
          "(word_of_int (rv (os (tr0 @ [?g, ?rg]) ?ru)) :: 64 word) \<noteq> 0"
    using failure by blast
  then show ?thesis
  proof cases
    case a
    then have "do_sandbox_setuid os run_loop tr = Some (Exit kFailStatus, tr0 @ [?g])"
      by (simp add: setuid_unfold [where os = os and tr = tr, OF child] tr0 Let_def)
    then show ?thesis by (subst (asm) t1) (rule exI)
  next
    case b
    then have "do_sandbox_setuid os run_loop tr = Some (Exit kFailStatus, tr0 @ [?g, ?rg])"
      by (simp add: setuid_unfold [where os = os and tr = tr, OF child] tr0 Let_def)
    then show ?thesis by (subst (asm) t2) (rule exI)
  next
    case c
    then have "do_sandbox_setuid os run_loop tr = Some (Exit kFailStatus, ?all)"
      by (simp add: setuid_unfold [where os = os and tr = tr, OF child] tr0 Let_def)
    then show ?thesis by (subst (asm) t3) (rule exI)
  qed
qed

theorem setuid_failure_is_fatal_witness:
  "(word_of_int (rv (os_child_denied [] Fork)) :: cint) = 0
   \<and> (word_of_int (rv (os_child_denied (sandbox_common os_child_denied ([] @ [Fork])) (Setgroups 0))) :: cint) \<noteq> 0
   \<and> do_sandbox_setuid os_child_denied (\<lambda>tr. None) []
      = Some (Exit 67, [Fork, Prctl 1 9, Setpgrp, Setsid, Setrlimit 9 134217728,
          Setrlimit 1 1048576, Setrlimit 3 1048576, Setrlimit 4 0, Unshare 0x20000,
          Unshare 0x8000000, Unshare 0x80000000, Setgroups 0])
   \<and> (\<exists>n. do_sandbox_setuid os_child_denied (\<lambda>tr. None) []
      = Some (Exit kFailStatus,
          take n (sandbox_common os_child_denied ([] @ [Fork])
             @ [Setgroups 0, Setresgid 65534 65534 65534, Setresuid 65534 65534 65534])))"
proof -
  have c: "(word_of_int (rv (os_child_denied [] Fork)) :: cint) = 0"
    by (simp add: os_child_denied_def reply0_def)
  have f: "(word_of_int (rv (os_child_denied (sandbox_common os_child_denied ([] @ [Fork])) (Setgroups 0))) :: cint) \<noteq> 0"
    by (simp add: os_child_denied_def reply0_def)
  have "\<exists>n. do_sandbox_setuid os_child_denied (\<lambda>tr. None) []
      = Some (Exit kFailStatus,
          take n (sandbox_common os_child_denied ([] @ [Fork])
             @ [Setgroups 0, Setresgid 65534 65534 65534, Setresuid 65534 65534 65534]))"
    by (rule setuid_failure_is_fatal [where os = os_child_denied and tr = "[]"
          and tr0 = "sandbox_common os_child_denied ([] @ [Fork])"]) (use c f in simp_all)
  moreover have "do_sandbox_setuid os_child_denied (\<lambda>tr. None) []
      = Some (Exit 67, [Fork, Prctl 1 9, Setpgrp, Setsid, Setrlimit 9 134217728,
          Setrlimit 1 1048576, Setrlimit 3 1048576, Setrlimit 4 0, Unshare 0x20000,
          Unshare 0x8000000, Unshare 0x80000000, Setgroups 0])"
    by (simp add: do_sandbox_setuid_def sandbox_common_def sys_ignore_def sys_def Let_def
        os_child_denied_def reply0_def fail_def kFailStatus_def PR_SET_PDEATHSIG_def SIGKILL_def
        RLIMIT_AS_def RLIMIT_FSIZE_def RLIMIT_STACK_def RLIMIT_CORE_def CLONE_NEWNS_def
        CLONE_NEWIPC_def CLONE_IO_def)
  ultimately show ?thesis using c f by blast
qed

section \<open>Retry budgets and exit status of \<open>remove_dir\<close>\<close>

lemma unlink_busy_step:
  assumes "i \<le> 100" and "(word_of_int (rv (os tr (Unlink f))) :: cint) \<noteq> 0"
    and "errno (os tr (Unlink f)) = EBUSY"
  shows "unlink_loop os f i tr =
    (if (word_of_int (rv (os (tr @ [Unlink f]) (Umount2 f MNT_DETACH))) :: cint) \<noteq> 0
     then (Exit kRetryStatus, tr @ [Unlink f, Umount2 f MNT_DETACH])
     else unlink_loop os f (i + 1) (tr @ [Unlink f, Umount2 f MNT_DETACH]))"
  using assms
  by (subst unlink_loop.simps) (simp add: sys_def exitf_def EBUSY_def EROFS_def)

lemma unlink_rofs_skip:
  assumes "(word_of_int (rv (os tr (Unlink f))) :: cint) \<noteq> 0"
    and "errno (os tr (Unlink f)) = EROFS"
  shows "unlink_loop os f i tr = (Ret (), tr @ [Unlink f])"
  using assms by (subst unlink_loop.simps) (simp add: sys_def)

lemma unlink_budget:
  assumes "i > 100" and "(word_of_int (rv (os tr (Unlink f))) :: cint) \<noteq> 0"
    and "errno (os tr (Unlink f)) = EBUSY"
  shows "unlink_loop os f i tr = (Exit kRetryStatus, tr @ [Unlink f])"
  using assms by (subst unlink_loop.simps) (simp add: sys_def exitf_def EBUSY_def EROFS_def)

lemma unlink_loop_unfold:
  "unlink_loop os f i tr =
     (let r = os tr (Unlink f); tr1 = tr @ [Unlink f];
          r2 = os tr1 (Umount2 f MNT_DETACH); tr2 = tr1 @ [Umount2 f MNT_DETACH]
      in if (word_of_int (rv r) :: cint) = 0 then (Ret (), tr1)
         else if errno r = EROFS then (Ret (), tr1)
         else if errno r \<noteq> EBUSY \<or> i > 100 then (Exit kRetryStatus, tr1)
         else if (word_of_int (rv r2) :: cint) \<noteq> 0 then (Exit kRetryStatus, tr2)
         else unlink_loop os f (i + 1) tr2)"
  by (subst unlink_loop.simps) (simp add: sys_def Let_def exitf_def)

lemma unlink_count:
  "i \<le> 101 \<Longrightarrow>
     count_list (snd (unlink_loop os f i tr)) (Unlink f) + i \<le> count_list tr (Unlink f) + 102"
proof (induction "101 - i" arbitrary: i tr)
  case 0
  then have "i > 100" by simp
  then show ?case using 0
    by (subst unlink_loop_unfold) (simp add: Let_def)
next
  case (Suc n)
  then have i: "i \<le> 100" and n: "n = 101 - (i + 1)" by simp_all
  have "count_list (snd (unlink_loop os f (i + 1) (tr @ [Unlink f, Umount2 f MNT_DETACH]))) (Unlink f)
      + (i + 1) \<le> count_list (tr @ [Unlink f, Umount2 f MNT_DETACH]) (Unlink f) + 102"
    using Suc.hyps(1) [OF n, of "tr @ [Unlink f, Umount2 f MNT_DETACH]"] i by simp
  then show ?case using i
    by (subst unlink_loop_unfold) (simp add: Let_def)
qed

lemma unlink_loop_sound:
  "unlink_loop os f i tr = (x, tr') \<Longrightarrow>
     (\<exists>ev. tr' = tr @ ev \<and> list_all reclaim_call ev) \<and> (\<forall>s. x = Exit s \<longrightarrow> s = kRetryStatus)"
proof (induction "101 - i" arbitrary: i tr)
  case 0
  then have "i > 100" by simp
  with 0(2) show ?case
    by (subst (asm) unlink_loop_unfold) (auto simp: Let_def split: if_splits)
next
  case (Suc n)
  then have i: "i \<le> 100" and n: "n = 101 - (i + 1)" by simp_all
  note IH = Suc.hyps(1) [OF n, of "tr @ [Unlink f, Umount2 f MNT_DETACH]"]
  show ?case
  proof (cases "unlink_loop os f i tr = unlink_loop os f (i + 1) (tr @ [Unlink f, Umount2 f MNT_DETACH])")
    case True
    with Suc.prems IH obtain ev where "tr' = (tr @ [Unlink f, Umount2 f MNT_DETACH]) @ ev"
      "list_all reclaim_call ev" and x: "\<forall>s. x = Exit s \<longrightarrow> s = kRetryStatus" by auto
    then have "tr' = tr @ ([Unlink f, Umount2 f MNT_DETACH] @ ev)"
      "list_all reclaim_call ([Unlink f, Umount2 f MNT_DETACH] @ ev)" by simp_all
    with x show ?thesis by blast
  next
    case False
    then have "(x = Ret () \<or> x = Exit kRetryStatus)
        \<and> (tr' = tr @ [Unlink f] \<or> tr' = tr @ [Unlink f, Umount2 f MNT_DETACH])"
      using Suc.prems
      by (subst (asm) (1 2) unlink_loop_unfold) (auto simp: Let_def split: if_splits)
    then show ?thesis by auto
  qed
qed



lemma extends_trans: "extends a b \<Longrightarrow> extends b c \<Longrightarrow> extends a c"
  by (auto simp: extends_def)

lemma extends_snoc: "reclaim_call c \<Longrightarrow> extends a (a @ [c])"
  by (simp add: extends_def)

lemma extends_snoc_trans: "reclaim_call c \<Longrightarrow> extends (a @ [c]) b \<Longrightarrow> extends a b"
  by (blast intro: extends_trans extends_snoc)

lemma unlink_loop_extends:
  "unlink_loop os f i tr = (x, tr') \<Longrightarrow> extends tr tr' \<and> retry_exit x"
  using unlink_loop_sound [of os f i tr x tr']
  by (cases x) (auto simp: extends_def retry_exit_def)

lemma remove_dir_sound_aux:
  "(\<forall>dir iter tr x tr'. remove_dir_retry os n dir iter tr = Some (x, tr')
        \<longrightarrow> extends tr tr' \<and> retry_exit x)
   \<and> (\<forall>dir tr x tr'. readdir_loop os n dir tr = Some (x, tr') \<longrightarrow> extends tr tr' \<and> retry_exit x)
   \<and> (\<forall>dir iter i tr x tr'. rmdir_loop os n dir iter i tr = Some (x, tr')
        \<longrightarrow> extends tr tr' \<and> retry_exit x)"
proof (induction n)
  case 0
  show ?case by simp
next
  case (Suc n)
  then have IH1: "\<And>dir iter tr x tr'. remove_dir_retry os n dir iter tr = Some (x, tr')
        \<Longrightarrow> extends tr tr' \<and> retry_exit x"
    and IH2: "\<And>dir tr x tr'. readdir_loop os n dir tr = Some (x, tr') \<Longrightarrow> extends tr tr' \<and> retry_exit x"
    and IH3: "\<And>dir iter i tr x tr'. rmdir_loop os n dir iter i tr = Some (x, tr')
        \<Longrightarrow> extends tr tr' \<and> retry_exit x"
    by blast+
  have A: "extends tr tr' \<and> retry_exit x"
    if h: "remove_dir_retry os (Suc n) dir iter tr = Some (x, tr')" for dir iter tr x tr'
  proof (cases "rv (os tr (Opendir dir)) = 0")
    case True
    with h have "x = Exit kRetryStatus" "tr' = tr @ [Opendir dir]"
      by (auto simp: sys_def exitf_def)
    then show ?thesis by (simp add: extends_snoc retry_exit_def)
  next
    case False
    show ?thesis
    proof (cases "readdir_loop os n dir (tr @ [Opendir dir])")
      case None
      with h False show ?thesis by (simp add: sys_def)
    next
      case (Some p)
      obtain y tr2 where p: "p = (y, tr2)" by (cases p)
      from IH2 Some p have e2: "extends (tr @ [Opendir dir]) tr2" and r2: "retry_exit y" by blast+
      from e2 have e: "extends tr tr2" by (rule extends_snoc_trans [rotated]) simp
      show ?thesis
      proof (cases y)
        case (Exit s)
        with h False Some p have "x = y" "tr' = tr2" by (simp_all add: sys_def)
        with e r2 show ?thesis by simp
      next
        case (Ret u)
        with h False Some p have "rmdir_loop os n dir iter 0 (tr2 @ [Closedir dir]) = Some (x, tr')"
          by (simp add: sys_def sys_ignore_def)
        from IH3 [OF this] have "extends (tr2 @ [Closedir dir]) tr'" "retry_exit x" by blast+
        then have "extends tr2 tr'" "retry_exit x"
          by (auto intro: extends_snoc_trans [rotated])
        with e show ?thesis by (blast intro: extends_trans)
      qed
    qed
  qed
  have E1: "extends tr (tr @ [c])" if "reclaim_call c" for tr c
    using that by (rule extends_snoc)
  have E2: "extends tr (tr @ [c, d])" if "reclaim_call c" "reclaim_call d" for tr c d
    using that by (simp add: extends_def)
  have B: "extends tr tr' \<and> retry_exit x"
    if h: "readdir_loop os (Suc n) dir tr = Some (x, tr')" for dir tr x tr'
  proof -
    let ?r = "os tr (Readdir dir)" and ?tr1 = "tr @ [Readdir dir]"
    let ?f = "snprintf FILENAME_MAX (dir @ ''/'' @ d_name ?r)"
    let ?r2 = "os ?tr1 (Lstat ?f)" and ?tr2 = "tr @ [Readdir dir, Lstat ?f]"
    have e1: "extends tr ?tr1" by (simp add: E1)
    have e2: "extends tr ?tr2" by (simp add: E2)
    consider (eof) "rv ?r = 0"
      | (dot) "rv ?r \<noteq> 0" "d_name ?r = ''.'' \<or> d_name ?r = ''..''"
      | (nostat) "rv ?r \<noteq> 0" "\<not> (d_name ?r = ''.'' \<or> d_name ?r = ''..'')"
          "(word_of_int (rv ?r2) :: cint) \<noteq> 0"
      | (sub) "rv ?r \<noteq> 0" "\<not> (d_name ?r = ''.'' \<or> d_name ?r = ''..'')"
          "(word_of_int (rv ?r2) :: cint) = 0" "is_dir ?r2"
      | (plain) "rv ?r \<noteq> 0" "\<not> (d_name ?r = ''.'' \<or> d_name ?r = ''..'')"
          "(word_of_int (rv ?r2) :: cint) = 0" "\<not> is_dir ?r2"
      by blast
    then show ?thesis
    proof cases
      case eof
      with h have "x = Ret ()" "tr' = ?tr1" by (auto simp: sys_def)
      with e1 show ?thesis by (simp add: retry_exit_def)
    next
      case dot
      with h have "readdir_loop os n dir ?tr1 = Some (x, tr')" by (auto simp: sys_def)
      from IH2 [OF this] e1 show ?thesis by (blast intro: extends_trans)
    next
      case nostat
      with h have "x = Exit kRetryStatus" "tr' = ?tr2" by (auto simp: sys_def Let_def exitf_def)
      with e2 show ?thesis by (simp add: retry_exit_def)
    next
      case sub
      show ?thesis
      proof (cases "remove_dir_retry os n ?f 0 ?tr2")
        case None
        with h sub show ?thesis by (simp add: sys_def Let_def)
      next
        case (Some p)
        obtain y tr3 where p: "p = (y, tr3)" by (cases p)
        from IH1 Some p have e3: "extends ?tr2 tr3" and r3: "retry_exit y" by blast+
        show ?thesis
        proof (cases y)
          case (Exit s)
          with h sub Some p have "x = y" "tr' = tr3" by (simp_all add: sys_def Let_def)
          with e2 e3 r3 show ?thesis by (blast intro: extends_trans)
        next
          case (Ret u)
          with h sub Some p have "readdir_loop os n dir tr3 = Some (x, tr')"
            by (simp add: sys_def Let_def)
          from IH2 [OF this] e2 e3 show ?thesis by (blast intro: extends_trans)
        qed
      qed
    next
      case plain
      obtain y tr3 where p: "unlink_loop os ?f 0 ?tr2 = (y, tr3)" by (cases "unlink_loop os ?f 0 ?tr2")
      from unlink_loop_extends [OF p] have e3: "extends ?tr2 tr3" and r3: "retry_exit y" by blast+
      show ?thesis
      proof (cases y)
        case (Exit s)
        with h plain p have "x = y" "tr' = tr3" by (simp_all add: sys_def Let_def)
        with e2 e3 r3 show ?thesis by (blast intro: extends_trans)
      next
        case (Ret u)
        with h plain p have "readdir_loop os n dir tr3 = Some (x, tr')"
          by (simp add: sys_def Let_def)
        from IH2 [OF this] e2 e3 show ?thesis by (blast intro: extends_trans)
      qed
    qed
  qed
  have C: "extends tr tr' \<and> retry_exit x"
    if h: "rmdir_loop os (Suc n) dir iter i tr = Some (x, tr')" for dir iter i tr x tr'
  proof -
    let ?r = "os tr (Rmdir dir)" and ?tr1 = "tr @ [Rmdir dir]"
    let ?r2 = "os ?tr1 (Umount2 dir MNT_DETACH)" and ?tr2 = "tr @ [Rmdir dir, Umount2 dir MNT_DETACH]"
    have e1: "extends tr ?tr1" by (simp add: E1)
    have e2: "extends tr ?tr2" by (simp add: E2)
    have "rmdir_loop os (Suc n) dir iter i tr = rmdir_loop os n dir iter (i + 1) ?tr2
      \<or> rmdir_loop os (Suc n) dir iter i tr = remove_dir_retry os n dir (iter + 1) ?tr1
      \<or> rmdir_loop os (Suc n) dir iter i tr = Some (Ret (), ?tr1)
      \<or> rmdir_loop os (Suc n) dir iter i tr = Some (Exit kRetryStatus, ?tr1)
      \<or> rmdir_loop os (Suc n) dir iter i tr = Some (Exit kRetryStatus, ?tr2)"
      by (simp add: sys_def exitf_def)
    then consider (again) "rmdir_loop os (Suc n) dir iter i tr = rmdir_loop os n dir iter (i + 1) ?tr2"
      | (retry) "rmdir_loop os (Suc n) dir iter i tr = remove_dir_retry os n dir (iter + 1) ?tr1"
      | (fin) "rmdir_loop os (Suc n) dir iter i tr = Some (Ret (), ?tr1)"
      | (ex1) "rmdir_loop os (Suc n) dir iter i tr = Some (Exit kRetryStatus, ?tr1)"
      | (ex2) "rmdir_loop os (Suc n) dir iter i tr = Some (Exit kRetryStatus, ?tr2)"
      by blast
    then show ?thesis
    proof cases
      case again
      with h IH3 [of dir iter "i + 1" ?tr2 x tr'] e2 show ?thesis by (auto intro: extends_trans)
    next
      case retry
      with h IH1 [of dir "iter + 1" ?tr1 x tr'] e1 show ?thesis by (auto intro: extends_trans)
    next
      case fin
      with h e1 show ?thesis by (simp add: retry_exit_def)
    next
      case ex1
      with h e1 show ?thesis by (simp add: retry_exit_def)
    next
      case ex2
      with h e2 show ?thesis by (simp add: retry_exit_def)
    qed
  qed
  from A B C show ?case by blast
qed


lemma remove_dir_exit_status:
  assumes "remove_dir os fuel dir tr = Some (Exit s, tr')"
  shows "s = kRetryStatus"
proof -
  from assms remove_dir_sound_aux [of os fuel] have "retry_exit (Exit s)"
    unfolding remove_dir_def by blast
  then show ?thesis by (simp add: retry_exit_def)
qed

lemma rmdir_budget:
  assumes "i \<ge> 100" and "(word_of_int (rv (os tr (Rmdir dir))) :: cint) \<noteq> 0"
  shows "rmdir_loop os (Suc n) dir iter i tr = Some (Exit kRetryStatus, tr @ [Rmdir dir])"
  using assms by (simp add: sys_def exitf_def)

lemma relist_budget:
  assumes "iter \<ge> 100" and "(word_of_int (rv (os tr (Rmdir dir))) :: cint) \<noteq> 0"
    and "errno (os tr (Rmdir dir)) = ENOTEMPTY"
  shows "rmdir_loop os (Suc n) dir iter i tr = Some (Exit kRetryStatus, tr @ [Rmdir dir])"
  using assms by (simp add: sys_def exitf_def ENOTEMPTY_def EROFS_def EBUSY_def)

lemma unlink_always_busy:
  assumes busy: "\<And>tr. (word_of_int (rv (os tr (Unlink f))) :: cint) \<noteq> 0
      \<and> errno (os tr (Unlink f)) = EBUSY"
    and um: "\<And>tr. (word_of_int (rv (os tr (Umount2 f MNT_DETACH))) :: cint) = 0"
  shows "i \<le> 101 \<Longrightarrow> unlink_loop os f i tr
    = (Exit kRetryStatus,
       tr @ concat (replicate (101 - i) [Unlink f, Umount2 f MNT_DETACH]) @ [Unlink f])"
proof (induction "101 - i" arbitrary: i tr)
  case 0
  then have "i > 100" by simp
  with 0 busy [of tr] show ?case
    by (subst unlink_loop_unfold) (simp add: Let_def EBUSY_def EROFS_def)
next
  case (Suc n)
  then have i: "i \<le> 100" and n: "n = 101 - (i + 1)" by simp_all
  have r: "101 - i = Suc (101 - (i + 1))" using i by simp
  have "unlink_loop os f i tr = unlink_loop os f (i + 1) (tr @ [Unlink f, Umount2 f MNT_DETACH])"
    using i busy [of tr] um [of "tr @ [Unlink f]"]
    by (subst unlink_loop_unfold) (simp add: Let_def EBUSY_def EROFS_def)
  also have "\<dots> = (Exit kRetryStatus, (tr @ [Unlink f, Umount2 f MNT_DETACH])
       @ concat (replicate (101 - (i + 1)) [Unlink f, Umount2 f MNT_DETACH]) @ [Unlink f])"
    using Suc.hyps(1) [OF n, of "tr @ [Unlink f, Umount2 f MNT_DETACH]"] i by simp
  finally show ?case by (simp only: r) simp
qed

text \<open>
  C5. In the loop on an entry that is not a directory: an \<open>unlink\<close> that fails with
  \<open>EBUSY\<close> while \<open>i \<le> 100\<close> is followed by \<open>umount2(filename, MNT_DETACH)\<close> and, if
  that succeeds, by the next round; the loop makes at most 102 \<open>unlink\<close> calls; an
  \<open>unlink\<close> that fails with \<open>EROFS\<close> ends the loop normally, so the entry is left and
  the listing goes on. When a budget is used up (\<open>i > 100\<close> on \<open>EBUSY\<close> for the entry,
  \<open>i \<ge> 100\<close> for \<open>rmdir\<close>, \<open>iter \<ge> 100\<close> on \<open>ENOTEMPTY\<close>) the process exits with
  \<open>kRetryStatus\<close>, and every exit of \<open>remove_dir\<close>, with whatever fuel, has that status,
  which is not \<open>kFailStatus\<close>.
\<close>

theorem reclaim_retries_and_status:
  "(i \<le> 100 \<and> (word_of_int (rv (os tr (Unlink f))) :: cint) \<noteq> 0
      \<and> errno (os tr (Unlink f)) = EBUSY
     \<longrightarrow> unlink_loop os f i tr =
        (if (word_of_int (rv (os (tr @ [Unlink f]) (Umount2 f MNT_DETACH))) :: cint) \<noteq> 0
         then (Exit kRetryStatus, tr @ [Unlink f, Umount2 f MNT_DETACH])
         else unlink_loop os f (i + 1) (tr @ [Unlink f, Umount2 f MNT_DETACH])))
   \<and> count_list (snd (unlink_loop os f 0 tr)) (Unlink f) \<le> count_list tr (Unlink f) + 102
   \<and> ((word_of_int (rv (os tr (Unlink f))) :: cint) \<noteq> 0 \<and> errno (os tr (Unlink f)) = EROFS
     \<longrightarrow> unlink_loop os f i tr = (Ret (), tr @ [Unlink f]))
   \<and> (i > 100 \<and> (word_of_int (rv (os tr (Unlink f))) :: cint) \<noteq> 0
      \<and> errno (os tr (Unlink f)) = EBUSY
     \<longrightarrow> unlink_loop os f i tr = (Exit kRetryStatus, tr @ [Unlink f]))
   \<and> (j \<ge> 100 \<and> (word_of_int (rv (os tr (Rmdir dir))) :: cint) \<noteq> 0
     \<longrightarrow> rmdir_loop os (Suc n) dir iter j tr = Some (Exit kRetryStatus, tr @ [Rmdir dir]))
   \<and> (iter \<ge> 100 \<and> (word_of_int (rv (os tr (Rmdir dir))) :: cint) \<noteq> 0
      \<and> errno (os tr (Rmdir dir)) = ENOTEMPTY
     \<longrightarrow> rmdir_loop os (Suc n) dir iter j tr = Some (Exit kRetryStatus, tr @ [Rmdir dir]))
   \<and> (remove_dir os fuel dir tr = Some (Exit s, tr') \<longrightarrow> s = kRetryStatus \<and> s \<noteq> kFailStatus)"
proof (intro conjI impI)
  show "count_list (snd (unlink_loop os f 0 tr)) (Unlink f) \<le> count_list tr (Unlink f) + 102"
    using unlink_count [of 0 os f tr] by simp
next
  assume "i \<le> 100 \<and> (word_of_int (rv (os tr (Unlink f))) :: cint) \<noteq> 0
      \<and> errno (os tr (Unlink f)) = EBUSY"
  then show "unlink_loop os f i tr =
        (if (word_of_int (rv (os (tr @ [Unlink f]) (Umount2 f MNT_DETACH))) :: cint) \<noteq> 0
         then (Exit kRetryStatus, tr @ [Unlink f, Umount2 f MNT_DETACH])
         else unlink_loop os f (i + 1) (tr @ [Unlink f, Umount2 f MNT_DETACH]))"
    using unlink_busy_step [of i os tr f] by simp
next
  assume "(word_of_int (rv (os tr (Unlink f))) :: cint) \<noteq> 0 \<and> errno (os tr (Unlink f)) = EROFS"
  then show "unlink_loop os f i tr = (Ret (), tr @ [Unlink f])"
    using unlink_rofs_skip [of os tr f i] by simp
next
  assume "i > 100 \<and> (word_of_int (rv (os tr (Unlink f))) :: cint) \<noteq> 0
      \<and> errno (os tr (Unlink f)) = EBUSY"
  then show "unlink_loop os f i tr = (Exit kRetryStatus, tr @ [Unlink f])"
    using unlink_budget [of i os tr f] by simp
next
  assume "j \<ge> 100 \<and> (word_of_int (rv (os tr (Rmdir dir))) :: cint) \<noteq> 0"
  then show "rmdir_loop os (Suc n) dir iter j tr = Some (Exit kRetryStatus, tr @ [Rmdir dir])"
    using rmdir_budget [of j os tr dir n iter] by simp
next
  assume "iter \<ge> 100 \<and> (word_of_int (rv (os tr (Rmdir dir))) :: cint) \<noteq> 0
      \<and> errno (os tr (Rmdir dir)) = ENOTEMPTY"
  then show "rmdir_loop os (Suc n) dir iter j tr = Some (Exit kRetryStatus, tr @ [Rmdir dir])"
    using relist_budget [of iter os tr dir n j] by simp
next
  assume h: "remove_dir os fuel dir tr = Some (Exit s, tr')"
  then show "s = kRetryStatus" by (rule remove_dir_exit_status)
  then show "s \<noteq> kFailStatus" by (simp add: kRetryStatus_def kFailStatus_def)
qed

text \<open>
  On a directory with one file that stays busy, the whole of \<open>remove_dir\<close> makes 102
  \<open>unlink\<close> and 101 \<open>umount2\<close> calls and exits with status 69.
\<close>

theorem reclaim_retries_and_status_witness:
  "(word_of_int (rv (os_busy [] (Unlink ''./0/f''))) :: cint) \<noteq> 0
   \<and> errno (os_busy [] (Unlink ''./0/f'')) = EBUSY
   \<and> unlink_loop os_busy ''./0/f'' 0 []
      = unlink_loop os_busy ''./0/f'' 1 [Unlink ''./0/f'', Umount2 ''./0/f'' MNT_DETACH]
   \<and> unlink_loop os_busy ''./0/f'' 101 [] = (Exit 69, [Unlink ''./0/f''])
   \<and> errno (os_rofs [] (Unlink ''./0/f'')) = EROFS
   \<and> unlink_loop os_rofs ''./0/f'' 0 [] = (Ret (), [Unlink ''./0/f''])
   \<and> errno (os_busy [] (Rmdir ''./0'')) = ENOTEMPTY
   \<and> rmdir_loop os_busy 1 ''./0'' 100 100 [] = Some (Exit 69, [Rmdir ''./0''])
   \<and> remove_dir os_busy 3 ''./0'' []
      = Some (Exit 69, [Opendir ''./0'', Readdir ''./0'', Lstat ''./0/f'']
          @ concat (replicate 101 [Unlink ''./0/f'', Umount2 ''./0/f'' MNT_DETACH])
          @ [Unlink ''./0/f''])"
proof -
  have b: "(word_of_int (rv (os_busy tr (Unlink p))) :: cint) \<noteq> 0 \<and> errno (os_busy tr (Unlink p)) = EBUSY"
    for tr p by (simp add: os_busy_def reply0_def)
  have u: "(word_of_int (rv (os_busy tr (Umount2 p MNT_DETACH))) :: cint) = 0" for tr p
    by (simp add: os_busy_def reply0_def)
  have r: "(word_of_int (rv (os_busy [] (Rmdir ''./0''))) :: cint) \<noteq> 0
      \<and> errno (os_busy [] (Rmdir ''./0'')) = ENOTEMPTY"
    by (simp add: os_busy_def reply0_def)
  have ro: "(word_of_int (rv (os_rofs [] (Unlink ''./0/f''))) :: cint) \<noteq> 0
      \<and> errno (os_rofs [] (Unlink ''./0/f'')) = EROFS"
    by (simp add: os_rofs_def reply0_def)
  have full: "remove_dir os_busy 3 ''./0'' []
      = Some (Exit kRetryStatus, [Opendir ''./0'', Readdir ''./0'', Lstat ''./0/f'']
          @ concat (replicate 101 [Unlink ''./0/f'', Umount2 ''./0/f'' MNT_DETACH])
          @ [Unlink ''./0/f''])"
    using unlink_always_busy [of os_busy "''./0/f''" 0 "[Opendir ''./0'', Readdir ''./0'', Lstat ''./0/f'']", OF b u]
    by (simp add: remove_dir_def eval_nat_numeral sys_def os_busy_def reply0_def snprintf_def
        FILENAME_MAX_def Let_def)
  note T = reclaim_retries_and_status [of 0 os_busy "[]" "''./0/f''" 100 "''./0''" 0 100 3 "kRetryStatus"]
  note T2 = reclaim_retries_and_status [of 101 os_busy "[]" "''./0/f''" 100 "''./0''" 0 100 3 "kRetryStatus"]
  note T3 = reclaim_retries_and_status [of 0 os_rofs "[]" "''./0/f''" 100 "''./0''" 0 100 3 "kRetryStatus"]
  from T b [of "[]" "''./0/f''"] u [of "[Unlink ''./0/f'']" "''./0/f''"]
  have 1: "unlink_loop os_busy ''./0/f'' 0 []
      = unlink_loop os_busy ''./0/f'' 1 [Unlink ''./0/f'', Umount2 ''./0/f'' MNT_DETACH]"
    by simp
  from T2 b [of "[]" "''./0/f''"]
  have 2: "unlink_loop os_busy ''./0/f'' 101 [] = (Exit 69, [Unlink ''./0/f''])"
    by (simp add: kRetryStatus_def)
  from T3 ro have 3: "unlink_loop os_rofs ''./0/f'' 0 [] = (Ret (), [Unlink ''./0/f''])"
    by simp
  from T r have 4: "rmdir_loop os_busy 1 ''./0'' 100 100 [] = Some (Exit 69, [Rmdir ''./0''])"
    by (simp add: kRetryStatus_def)
  from 1 2 3 4 b [of "[]" "''./0/f''"] ro r full show ?thesis
    by (simp add: kRetryStatus_def)
qed

section \<open>The supervisor's round: deadline, reaping and reclamation\<close>

lemma current_time_ms_trace: "snd (current_time_ms os tr) = tr @ [Clock_gettime]"
  by (simp add: current_time_ms_def sys_def)

























end
